theory Spec2Isabelle
  imports Main
begin

section \<open>The lift controller of lift\_example\_RIGLER/lift.ts\<close>

text \<open>
  The class \<open>Lift\<close> of \<open>lift.ts\<close> is embedded with explicit state passing. The \<open>Error\<close>
  objects the code throws are told apart by their message; they are named here as the
  specification names them:
  \<^item> "minFloor must be <= maxFloor", "startFloor out of range": \<open>ConstructionError\<close>;
  \<^item> "floor out of range": \<open>OutOfRangeError\<close>;
  \<^item> "Lift is busy": \<open>BusyError\<close>;
  \<^item> "Cannot move while doors are open": \<open>DoorsOpenError\<close>;
  \<^item> "No destination to move to": \<open>NoDestinationError\<close>.
  Logging (\<open>log\<close>, \<open>dirName\<close>) has no effect on the state and is left out.
\<close>

subsection \<open>Numbers\<close>

text \<open>
  Floors are the integers of the specification's data model, held in the TypeScript type
  \<open>number\<close>: a floor is an integer that is a double. Comparison and equality of such
  numbers are exact. The sum of line 104 and the differences of lines 156 and 158 are
  rounded: the result is the double nearest to the exact result, the one with the even
  significand of 53 bits if two are equally near, and an infinity if that is beyond the
  largest double.
\<close>

datatype number = Finite int | Infinity | MinusInfinity

text \<open>The number of bits of a positive integer.\<close>

function bit_length :: "int \<Rightarrow> nat" where
  "bit_length n = (if n \<le> 0 then 0 else Suc (bit_length (n div 2)))"
  by pat_completeness auto
termination
  by (relation "measure nat") auto

declare bit_length.simps [simp del]

text \<open>
  The magnitude \<open>m\<close> rounded to 53 significant bits: up to \<open>2 ^ 53\<close> every integer is a
  double; above, \<open>m\<close> lies between \<open>q\<close> and \<open>q + 1\<close> times \<open>2 ^ e\<close>.
\<close>

definition round_magnitude :: "int \<Rightarrow> int" where
  "round_magnitude m =
     (if m \<le> 2 ^ 53 then m
      else
        let e = bit_length m - 53;
            q = m div 2 ^ e;
            r = m mod 2 ^ e;
            half = 2 ^ (e - 1)
        in (if r < half then q
            else if half < r then q + 1
            else if even q then q else q + 1) * 2 ^ e)"

definition to_double :: "int \<Rightarrow> number" where
  "to_double x =
     (let m = round_magnitude \<bar>x\<bar>
      in if 2 ^ 1024 \<le> m then (if x < 0 then MinusInfinity else Infinity)
         else Finite (if x < 0 then - m else m))"

definition double_add :: "int \<Rightarrow> int \<Rightarrow> number" where
  "double_add a b = to_double (a + b)"

definition double_sub :: "int \<Rightarrow> int \<Rightarrow> number" where
  "double_sub a b = to_double (a - b)"

text \<open>\<open>Math.abs\<close>, and the comparison \<open><\<close> of two numbers.\<close>

fun Math_abs :: "number \<Rightarrow> number" where
  "Math_abs (Finite n) = Finite \<bar>n\<bar>"
| "Math_abs Infinity = Infinity"
| "Math_abs MinusInfinity = Infinity"

fun number_less :: "number \<Rightarrow> number \<Rightarrow> bool" where
  "number_less (Finite a) (Finite b) = (a < b)"
| "number_less (Finite a) Infinity = True"
| "number_less (Finite a) MinusInfinity = False"
| "number_less Infinity b = False"
| "number_less MinusInfinity (Finite b) = True"
| "number_less MinusInfinity Infinity = True"
| "number_less MinusInfinity MinusInfinity = False"

text \<open>\<open>Math.abs(t - this._currentFloor)\<close>, lines 156 and 158.\<close>

definition double_dist :: "int \<Rightarrow> int \<Rightarrow> number" where
  "double_dist cur t = Math_abs (double_sub t cur)"

subsection \<open>Data\<close>

datatype Direction = Up | Down | Idle

text \<open>The numeric values of the enum: \<open>Up = 1\<close>, \<open>Down = -1\<close>, \<open>Idle = 0\<close>.\<close>

fun dir_value :: "Direction \<Rightarrow> int" where
  "dir_value Up = 1"
| "dir_value Down = - 1"
| "dir_value Idle = 0"

datatype DoorState = Open | Closed

text \<open>
  A call. The TypeScript type of its direction is \<open>Direction.Up | Direction.Down\<close>; the
  code compares it with the car's direction (\<open>c.direction === this._direction\<close>), so both
  are values of the one enum here.
\<close>

record Call =
  c_floor :: int
  c_direction :: Direction

datatype error =
  ConstructionError | OutOfRangeError | BusyError | DoorsOpenError | NoDestinationError

text \<open>
  The fields of the class. \<open>panelRequests\<close> is a JavaScript \<open>Set<number>\<close>, which
  iterates in insertion order: it is a list without duplicates, \<open>add\<close> appending an absent
  element and \<open>delete\<close> removing it. \<open>calls\<close> is the array, in insertion order.
\<close>

record Lift =
  minFloor :: int
  maxFloor :: int
  currentFloor :: int
  direction :: Direction
  doors :: DoorState
  panelRequests :: "int list"
  calls :: "Call list"
  busy :: bool

subsection \<open>Asynchronous functions\<close>

text \<open>
  \<open>openDoors\<close>, \<open>closeDoors\<close>, \<open>moveOneFloor\<close> and \<open>stepUntilStop\<close> are \<open>async\<close>. Each runs
  synchronously up to its first \<open>await\<close>, where it suspends and control goes back to its
  caller. What follows an \<open>await this.sleep(ms)\<close> runs when the timer fires, on the state of
  that moment. A suspended function is the rest of its body (a \<open>frame\<close>) together with the
  callers that \<open>await\<close> its promise, innermost first (\<open>awaiter\<close>s):
  \<^item> \<open>OpenDoorsK\<close>: lines 72 to 79, after the sleep of \<open>openDoors\<close>;
  \<^item> \<open>CloseDoorsK\<close>: lines 89 to 92, after the sleep of \<open>closeDoors\<close>;
  \<^item> \<open>MoveOneFloorK next\<close>: lines 115 to 121, with the local constant \<open>next\<close>;
  \<^item> \<open>MoveOneFloorA\<close>: \<open>moveOneFloor\<close> waiting at line 120 for \<open>openDoors\<close>;
  \<^item> \<open>StepUntilStopA i maxSteps\<close>: \<open>stepUntilStop\<close> waiting at line 128 in iteration \<open>i\<close>;
  \<^item> \<open>Outside c\<close>: code outside the class awaiting the promise of a public operation;
    all it does here is to note the outcome under the name \<open>c\<close>.

  An \<open>await\<close> always suspends. When the awaited promise is settled, the continuation of the
  \<open>await\<close> is queued as a microtask. Microtasks run in the order they were queued, once the
  synchronous code that is running has ended, and before the next timer. So after a
  \<open>moveOneFloor\<close> that returned at once, \<open>stepUntilStop\<close> goes on only after the code that
  called it has run to its end.

  The \<open>status\<close> of a call is the state of its promise when control comes back to the
  caller: rejected (\<open>Threw\<close>), fulfilled (\<open>Returned\<close>) or \<open>Pending\<close>.
\<close>

datatype frame = OpenDoorsK | CloseDoorsK | MoveOneFloorK int

datatype awaiter = MoveOneFloorA | StepUntilStopA nat nat | Outside nat

datatype timer = Timer (due: nat) (body: frame) (waiting: "awaiter list")

datatype status = Threw error | Returned | Pending

datatype microtask = Microtask (awaiting: "awaiter list") (outcome: status)

text \<open>
  The lift together with the event loop it runs on: the clock in ms, the timers set, the
  queue of microtasks, and the outcomes noted by the code outside.
\<close>

record World = Lift +
  clock :: nat
  timers :: "timer list"
  microtasks :: "microtask list"
  outcomes :: "(nat \<times> status) list"

text \<open>\<open>await this.sleep(ms)\<close>: \<open>setTimeout\<close> registers the timer, the function suspends.\<close>

definition sleep :: "nat \<Rightarrow> frame \<Rightarrow> awaiter list \<Rightarrow> World \<Rightarrow> World" where
  "sleep ms k ks w = w\<lparr>timers := timers w @ [Timer (clock w + ms) k ks]\<rparr>"

text \<open>
  An asynchronous function has ended with the outcome \<open>st\<close>: its promise is settled and the
  continuation of the caller that awaits it is queued. A promise that nobody awaits queues
  nothing.
\<close>

definition settle :: "awaiter list \<Rightarrow> status \<Rightarrow> World \<Rightarrow> World" where
  "settle ks st w =
     (if ks = [] then w else w\<lparr>microtasks := microtasks w @ [Microtask ks st]\<rparr>)"

subsection \<open>Construction and getters\<close>

definition new_Lift :: "int \<Rightarrow> int \<Rightarrow> int \<Rightarrow> error + World" where
  "new_Lift minF maxF startF =
     (if minF > maxF then Inl ConstructionError
      else if startF < minF \<or> startF > maxF then Inl ConstructionError
      else Inr \<lparr>minFloor = minF, maxFloor = maxF, currentFloor = startF,
                direction = Idle, doors = Closed, panelRequests = [], calls = [],
                busy = False, clock = 0, timers = [], microtasks = [], outcomes = []\<rparr>)"

definition pendingPanelRequests :: "World \<Rightarrow> int list" where
  "pendingPanelRequests w = sort (panelRequests w)"

definition pendingCalls :: "World \<Rightarrow> Call list" where
  "pendingCalls w = calls w"

subsection \<open>Helpers\<close>

definition set_add :: "int \<Rightarrow> int list \<Rightarrow> int list" where
  "set_add x xs = (if x \<in> set xs then xs else xs @ [x])"

definition set_delete :: "int \<Rightarrow> int list \<Rightarrow> int list" where
  "set_delete x xs = removeAll x xs"

definition assertFloorInRange :: "World \<Rightarrow> int \<Rightarrow> error option" where
  "assertFloorInRange w f =
     (if f < minFloor w \<or> f > maxFloor w then Some OutOfRangeError else None)"

definition hasPendingRequests :: "World \<Rightarrow> bool" where
  "hasPendingRequests w = (length (panelRequests w) > 0 \<or> length (calls w) > 0)"

definition shouldStopAtFloor :: "World \<Rightarrow> int \<Rightarrow> bool" where
  "shouldStopAtFloor w f =
     (if f \<in> set (panelRequests w) then True
      else let callsHere = filter (\<lambda>c. c_floor c = f) (calls w) in
        if length callsHere = 0 then False
        else if direction w = Idle then True
        else list_ex (\<lambda>c. c_direction c = direction w) callsHere)"

definition fulfillAtCurrentFloor :: "World \<Rightarrow> World" where
  "fulfillAtCurrentFloor w =
     (let w1 = w\<lparr>panelRequests := set_delete (currentFloor w) (panelRequests w)\<rparr>
      in w1\<lparr>calls := filter (\<lambda>c. c_floor c \<noteq> currentFloor w1) (calls w1)\<rparr>)"

subsection \<open>openDoors\<close>

definition openDoors :: "awaiter list \<Rightarrow> World \<Rightarrow> status \<times> World" where
  "openDoors ks w =
     (if doors w = Open then (Returned, w)
      else if busy w then (Threw BusyError, w)
      else (Pending, sleep 1000 OpenDoorsK ks (w\<lparr>busy := True\<rparr>)))"

definition openDoors_resume :: "World \<Rightarrow> World" where
  "openDoors_resume w =
     (let w1 = w\<lparr>doors := Open\<rparr>;
          w2 = fulfillAtCurrentFloor w1;
          w3 = (if \<not> hasPendingRequests w2 then w2\<lparr>direction := Idle\<rparr> else w2)
      in w3\<lparr>busy := False\<rparr>)"

subsection \<open>updateDirectionIfIdle\<close>

text \<open>
  The loop of lines 155 to 163: \<open>nearest\<close> and \<open>bestDist\<close> start at \<open>targets[0]\<close> and are
  replaced by a target whose distance, as computed, is strictly less.
\<close>

fun nearest_loop :: "int \<Rightarrow> int list \<Rightarrow> int \<Rightarrow> number \<Rightarrow> int" where
  "nearest_loop cur [] nearest bestDist = nearest"
| "nearest_loop cur (t # ts) nearest bestDist =
     (let d = double_dist cur t
      in if number_less d bestDist then nearest_loop cur ts t d
         else nearest_loop cur ts nearest bestDist)"

text \<open>
  \<open>void this.openDoors()\<close> at line 169 starts the door opening and drops its promise: no
  caller awaits it, and a rejection of it is seen by nobody.
\<close>

definition updateDirectionIfIdle :: "World \<Rightarrow> World" where
  "updateDirectionIfIdle w =
     (if direction w \<noteq> Idle then w
      else if \<not> hasPendingRequests w then w\<lparr>direction := Idle\<rparr>
      else
        (case panelRequests w @ map c_floor (calls w) of
           [] \<Rightarrow> w
         | t0 # ts \<Rightarrow>
             let nearest =
                   nearest_loop (currentFloor w) (t0 # ts) t0 (double_dist (currentFloor w) t0);
                 newDir = (if nearest > currentFloor w then Up
                           else if nearest < currentFloor w then Down else Idle);
                 w1 = w\<lparr>direction := newDir\<rparr>
             in if newDir = Idle then snd (openDoors [] w1) else w1))"

subsection \<open>pressButton, callFrom\<close>

definition pressButton :: "int \<Rightarrow> World \<Rightarrow> status \<times> World" where
  "pressButton f w =
     (case assertFloorInRange w f of
        Some e \<Rightarrow> (Threw e, w)
      | None \<Rightarrow>
          (Returned,
           updateDirectionIfIdle (w\<lparr>panelRequests := set_add f (panelRequests w)\<rparr>)))"

definition callFrom :: "int \<Rightarrow> Direction \<Rightarrow> World \<Rightarrow> status \<times> World" where
  "callFrom f d w =
     (case assertFloorInRange w f of
        Some e \<Rightarrow> (Threw e, w)
      | None \<Rightarrow>
          (Returned,
           updateDirectionIfIdle
             (w\<lparr>calls := calls w @ [\<lparr>c_floor = f, c_direction = d\<rparr>]\<rparr>)))"

subsection \<open>closeDoors\<close>

definition closeDoors :: "awaiter list \<Rightarrow> World \<Rightarrow> status \<times> World" where
  "closeDoors ks w =
     (if doors w = Closed then (Returned, w)
      else if busy w then (Threw BusyError, w)
      else (Pending, sleep 1000 CloseDoorsK ks (w\<lparr>busy := True\<rparr>)))"

definition closeDoors_resume :: "World \<Rightarrow> World" where
  "closeDoors_resume w =
     (let w1 = w\<lparr>doors := Closed\<rparr>;
          w2 = updateDirectionIfIdle w1
      in w2\<lparr>busy := False\<rparr>)"

subsection \<open>moveOneFloor\<close>

text \<open>
  Line 104 computes \<open>next\<close> as a double. An infinity is beyond the bounds, which are
  finite, so that the test of line 105 holds of it.
\<close>

definition moveOneFloor :: "awaiter list \<Rightarrow> World \<Rightarrow> status \<times> World" where
  "moveOneFloor ks w =
     (if doors w = Open then (Threw DoorsOpenError, w)
      else if busy w then (Threw BusyError, w)
      else
        let w1 = (if direction w = Idle then updateDirectionIfIdle w else w) in
        if direction w = Idle \<and> direction w1 = Idle then (Threw NoDestinationError, w1)
        else
          (case double_add (currentFloor w1) (dir_value (direction w1)) of
             Finite next \<Rightarrow>
               if next < minFloor w1 \<or> next > maxFloor w1
               then (Returned, w1\<lparr>direction := (if direction w1 = Up then Down else Up)\<rparr>)
               else (Pending, sleep 3000 (MoveOneFloorK next) ks (w1\<lparr>busy := True\<rparr>))
           | Infinity \<Rightarrow>
               (Returned, w1\<lparr>direction := (if direction w1 = Up then Down else Up)\<rparr>)
           | MinusInfinity \<Rightarrow>
               (Returned, w1\<lparr>direction := (if direction w1 = Up then Down else Up)\<rparr>)))"

text \<open>
  Lines 115 to 121. If \<open>openDoors\<close> suspends, \<open>moveOneFloor\<close> waits for it on its timer; if
  it has returned or thrown at once, the \<open>await\<close> of line 120 suspends all the same and its
  continuation is queued.
\<close>

definition moveOneFloor_resume :: "int \<Rightarrow> awaiter list \<Rightarrow> World \<Rightarrow> status \<times> World" where
  "moveOneFloor_resume next ks w =
     (let w1 = w\<lparr>currentFloor := next\<rparr>;
          w2 = w1\<lparr>busy := False\<rparr>
      in if shouldStopAtFloor w2 (currentFloor w2) then
           (case openDoors (MoveOneFloorA # ks) w2 of
              (Pending, w3) \<Rightarrow> (Pending, w3)
            | (Returned, w3) \<Rightarrow> (Pending, settle (MoveOneFloorA # ks) Returned w3)
            | (Threw e, w3) \<Rightarrow> (Pending, settle (MoveOneFloorA # ks) (Threw e) w3))
         else (Returned, w2))"

subsection \<open>stepUntilStop\<close>

text \<open>
  The \<open>for\<close> loop from the head of iteration \<open>i\<close> up to its \<open>await\<close>: the loop has ended
  (by the bound or by the \<open>break\<close> of line 127) and \<open>stepUntilStop\<close> returns, or
  \<open>moveOneFloor\<close> has been called and \<open>stepUntilStop\<close> is suspended at line 128. It waits
  on the timer of the move, or, if the move has returned or thrown at once, its
  continuation is queued with that outcome. The loop goes on from there in
  \<open>run_microtask\<close>.
\<close>

definition stepLoop :: "nat \<Rightarrow> nat \<Rightarrow> awaiter list \<Rightarrow> World \<Rightarrow> status \<times> World" where
  "stepLoop i maxSteps ks w =
     (if i < maxSteps then
        (if doors w = Open \<or> direction w = Idle then (Returned, w)
         else
           (case moveOneFloor (StepUntilStopA i maxSteps # ks) w of
              (Pending, w') \<Rightarrow> (Pending, w')
            | (Returned, w') \<Rightarrow>
                (Pending, settle (StepUntilStopA i maxSteps # ks) Returned w')
            | (Threw e, w') \<Rightarrow>
                (Pending, settle (StepUntilStopA i maxSteps # ks) (Threw e) w')))
      else (Returned, w))"

definition stepUntilStop :: "nat \<Rightarrow> awaiter list \<Rightarrow> World \<Rightarrow> status \<times> World" where
  "stepUntilStop maxSteps ks w = stepLoop 0 maxSteps ks w"

text \<open>The default argument \<open>maxSteps = 1000\<close>.\<close>

definition stepUntilStop_default :: "awaiter list \<Rightarrow> World \<Rightarrow> status \<times> World" where
  "stepUntilStop_default ks w = stepUntilStop 1000 ks w"

subsection \<open>The event loop\<close>

text \<open>
  A microtask hands an outcome to the innermost caller that awaits it. \<open>moveOneFloor\<close> has
  nothing left to do after line 120: it ends with the outcome it got. \<open>stepUntilStop\<close>
  ends with the exception it got, or goes on with its next iteration. The code outside
  notes the outcome.
\<close>

fun run_microtask :: "microtask \<Rightarrow> World \<Rightarrow> World" where
  "run_microtask (Microtask [] st) w = w"
| "run_microtask (Microtask (MoveOneFloorA # ks) st) w = settle ks st w"
| "run_microtask (Microtask (Outside c # ks) st) w = w\<lparr>outcomes := outcomes w @ [(c, st)]\<rparr>"
| "run_microtask (Microtask (StepUntilStopA i maxSteps # ks) st) w =
     (case st of
        Returned \<Rightarrow>
          (case stepLoop (Suc i) maxSteps ks w of
             (Pending, w') \<Rightarrow> w'
           | (Returned, w') \<Rightarrow> settle ks Returned w'
           | (Threw e, w') \<Rightarrow> settle ks (Threw e) w')
      | Threw e \<Rightarrow> settle ks (Threw e) w
      | Pending \<Rightarrow> w)"

text \<open>
  The queue is run until it is empty. It gets empty: a microtask queues at most one
  other, for a shorter chain of callers or for a later iteration of a bounded loop.
\<close>

fun awaiter_weight :: "awaiter \<Rightarrow> nat" where
  "awaiter_weight (StepUntilStopA i maxSteps) = Suc (maxSteps - i)"
| "awaiter_weight MoveOneFloorA = 1"
| "awaiter_weight (Outside c) = 1"

definition microtask_weight :: "microtask \<Rightarrow> nat" where
  "microtask_weight m = Suc (sum_list (map awaiter_weight (awaiting m)))"

definition queue_weight :: "World \<Rightarrow> nat" where
  "queue_weight w = sum_list (map microtask_weight (microtasks w))"

function drain :: "World \<Rightarrow> World" where
  "drain w =
     (case microtasks w of
        [] \<Rightarrow> w
      | m # ms \<Rightarrow> drain (run_microtask m (w\<lparr>microtasks := ms\<rparr>)))"
  by pat_completeness auto
termination
proof (relation "measure queue_weight")
  show "wf (measure queue_weight)"
    by simp
next
  fix w :: World and m ms
  assume q: "microtasks w = m # ms"
  let ?v = "w\<lparr>microtasks := ms\<rparr>"
  have upd: "microtasks (updateDirectionIfIdle v) = microtasks v" for v
    by (simp add: updateDirectionIfIdle_def openDoors_def sleep_def Let_def
        split: list.splits)
  have mv: "microtasks (snd (moveOneFloor ks v)) = microtasks v" for ks v
    by (simp add: moveOneFloor_def upd sleep_def Let_def split: number.splits)
  have st: "queue_weight (settle ks s v) \<le> queue_weight v + Suc (sum_list (map awaiter_weight ks))"
    for ks s v
    by (simp add: settle_def queue_weight_def microtask_weight_def)
  have lp: "queue_weight (snd (stepLoop (Suc i) n ks v)) \<le>
      queue_weight v + Suc (n - i + sum_list (map awaiter_weight ks)) \<and>
      (fst (stepLoop (Suc i) n ks v) \<noteq> Pending \<longrightarrow> snd (stepLoop (Suc i) n ks v) = v)"
    for i n ks v
  proof (cases "moveOneFloor (StepUntilStopA (Suc i) n # ks) v")
    case (Pair s v')
    with mv[of "StepUntilStopA (Suc i) n # ks" v] have "microtasks v' = microtasks v"
      by simp
    with Pair show ?thesis
      by (cases s)
        (auto simp add: stepLoop_def settle_def queue_weight_def microtask_weight_def)
  qed
  have "queue_weight (run_microtask m ?v) < microtask_weight m + queue_weight ?v"
  proof (cases m)
    case (Microtask ks s)
    show ?thesis
    proof (cases ks)
      case Nil
      with Microtask show ?thesis by (simp add: microtask_weight_def)
    next
      case (Cons k ks')
      show ?thesis
      proof (cases k)
        case MoveOneFloorA
        with Microtask Cons st[of ks' s ?v] show ?thesis
          by (simp add: microtask_weight_def)
      next
        case (Outside c)
        with Microtask Cons show ?thesis
          by (simp add: microtask_weight_def queue_weight_def)
      next
        case (StepUntilStopA i n)
        show ?thesis
        proof (cases s)
          case (Threw e)
          with Microtask Cons StepUntilStopA st[of ks' "Threw e" ?v] show ?thesis
            by (simp add: microtask_weight_def)
        next
          case Pending
          with Microtask Cons StepUntilStopA show ?thesis
            by (simp add: microtask_weight_def)
        next
          case Returned
          obtain s' v' where l: "stepLoop (Suc i) n ks' ?v = (s', v')"
            by (cases "stepLoop (Suc i) n ks' ?v")
          show ?thesis
          proof (cases "s' = Pending")
            case True
            have "i < n \<or> v' = ?v"
              using l True by (auto simp add: stepLoop_def split: if_splits)
            moreover have "queue_weight v' \<le>
                queue_weight ?v + Suc (n - i + sum_list (map awaiter_weight ks'))"
              using lp[of i n ks' ?v] l by simp
            ultimately show ?thesis
              using Microtask Cons StepUntilStopA Returned l True
              by (auto simp add: microtask_weight_def)
          next
            case False
            with lp[of i n ks' ?v] l have "v' = ?v" by simp
            with False Microtask Cons StepUntilStopA Returned l st[of ks' s' ?v]
            show ?thesis
              by (cases s') (simp_all add: microtask_weight_def)
          qed
        qed
      qed
    qed
  qed
  then show "(run_microtask m ?v, w) \<in> measure queue_weight"
    using q by (simp add: queue_weight_def)
qed

declare drain.simps [simp del]

text \<open>What a timer does when it fires: the rest of the sleeping function.\<close>

fun resume :: "frame \<Rightarrow> awaiter list \<Rightarrow> World \<Rightarrow> World" where
  "resume OpenDoorsK ks w = settle ks Returned (openDoors_resume w)"
| "resume CloseDoorsK ks w = settle ks Returned (closeDoors_resume w)"
| "resume (MoveOneFloorK next) ks w =
     (case moveOneFloor_resume next ks w of
        (Pending, w') \<Rightarrow> w'
      | (Returned, w') \<Rightarrow> settle ks Returned w'
      | (Threw e, w') \<Rightarrow> settle ks (Threw e) w')"

definition run_timer :: "timer \<Rightarrow> World \<Rightarrow> World" where
  "run_timer t w =
     resume (body t) (waiting t)
       (w\<lparr>clock := max (clock w) (due t), timers := remove1 t (timers w)\<rparr>)"

text \<open>The timer that fires next: the least due time, the one set first among equals.\<close>

fun earliest :: "timer \<Rightarrow> timer list \<Rightarrow> timer" where
  "earliest t [] = t"
| "earliest t (u # us) = (if due u < due t then earliest u us else earliest t us)"

definition fire :: "World \<Rightarrow> World" where
  "fire w = (case timers w of [] \<Rightarrow> w | t # ts \<Rightarrow> run_timer (earliest t ts) w)"

text \<open>
  The event loop once the code outside has nothing more to run: the microtasks, then the
  next timer, and so on until no timer is left, for at most \<open>fuel\<close> timers.
\<close>

fun run :: "nat \<Rightarrow> World \<Rightarrow> World option" where
  "run 0 w = (if timers (drain w) = [] then Some (drain w) else None)"
| "run (Suc fuel) w =
     (if timers (drain w) = [] then Some (drain w) else run fuel (fire (drain w)))"

subsection \<open>Reachable states\<close>

text \<open>
  The states a validly constructed lift can be in: the public operations are called from
  outside, their promises dropped or awaited there, in any order and at any time, and
  pending microtasks run and pending timers fire. Any pending microtask may run, any
  pending timer may fire and any time may pass between two events: the relation allows
  every order the event loop can produce, and more.
\<close>

fun outside :: "awaiter list \<Rightarrow> bool" where
  "outside [] = True"
| "outside [Outside c] = True"
| "outside ks = False"

inductive reachable :: "World \<Rightarrow> bool" where
  constructed: "new_Lift minF maxF startF = Inr w \<Longrightarrow> reachable w"
| pressed: "reachable w \<Longrightarrow> reachable (snd (pressButton f w))"
| called: "reachable w \<Longrightarrow> d = Up \<or> d = Down \<Longrightarrow> reachable (snd (callFrom f d w))"
| opened: "reachable w \<Longrightarrow> outside ks \<Longrightarrow> reachable (snd (openDoors ks w))"
| closed: "reachable w \<Longrightarrow> outside ks \<Longrightarrow> reachable (snd (closeDoors ks w))"
| moved: "reachable w \<Longrightarrow> outside ks \<Longrightarrow> reachable (snd (moveOneFloor ks w))"
| stepped: "reachable w \<Longrightarrow> outside ks \<Longrightarrow> reachable (snd (stepUntilStop maxSteps ks w))"
| waited: "reachable w \<Longrightarrow> reachable (w\<lparr>clock := clock w + ms\<rparr>)"
| fired: "reachable w \<Longrightarrow> t \<in> set (timers w) \<Longrightarrow> reachable (run_timer t w)"
| ran: "reachable w \<Longrightarrow> m \<in> set (microtasks w) \<Longrightarrow>
        reachable (run_microtask m (w\<lparr>microtasks := remove1 m (microtasks w)\<rparr>))"

text \<open>
  The current floor is within the bounds, and so is the floor every sleeping
  \<open>moveOneFloor\<close> is about to write.
\<close>

fun frame_in_range :: "int \<Rightarrow> int \<Rightarrow> frame \<Rightarrow> bool" where
  "frame_in_range lo hi (MoveOneFloorK next) = (lo \<le> next \<and> next \<le> hi)"
| "frame_in_range lo hi OpenDoorsK = True"
| "frame_in_range lo hi CloseDoorsK = True"

definition in_range :: "World \<Rightarrow> bool" where
  "in_range w =
     (minFloor w \<le> currentFloor w \<and> currentFloor w \<le> maxFloor w \<and>
      list_all (\<lambda>t. frame_in_range (minFloor w) (maxFloor w) (body t)) (timers w))"

subsection \<open>The direction selection as the specification words it\<close>



subsection \<open>Example states\<close>

text \<open>\<open>new Lift(1, 5, 3)\<close>, then \<open>callFrom(1, Direction.Down)\<close>, then an awaited \<open>stepUntilStop()\<close>.\<close>

definition lift_1_5_3 :: World where
  "lift_1_5_3 =
     \<lparr>minFloor = 1, maxFloor = 5, currentFloor = 3, direction = Idle, doors = Closed,
      panelRequests = [], calls = [], busy = False, clock = 0, timers = [],
      microtasks = [], outcomes = []\<rparr>"

definition called_1_down :: World where
  "called_1_down =
     \<lparr>minFloor = 1, maxFloor = 5, currentFloor = 3, direction = Down, doors = Closed,
      panelRequests = [], calls = [\<lparr>c_floor = 1, c_direction = Down\<rparr>], busy = False,
      clock = 0, timers = [], microtasks = [], outcomes = []\<rparr>"

definition arrived_1 :: World where
  "arrived_1 =
     \<lparr>minFloor = 1, maxFloor = 5, currentFloor = 1, direction = Idle, doors = Open,
      panelRequests = [], calls = [], busy = False, clock = 7000, timers = [],
      microtasks = [], outcomes = []\<rparr>"

text \<open>
  \<open>new Lift(1, 5, 3)\<close>, then \<open>pressButton(3)\<close>: the doors are opening. After the timer and
  \<open>closeDoors()\<close>: the doors are closing.
\<close>

definition door_opening :: World where
  "door_opening =
     \<lparr>minFloor = 1, maxFloor = 5, currentFloor = 3, direction = Idle, doors = Closed,
      panelRequests = [3], calls = [], busy = True, clock = 0,
      timers = [Timer 1000 OpenDoorsK []], microtasks = [], outcomes = []\<rparr>"

definition door_closing :: World where
  "door_closing =
     \<lparr>minFloor = 1, maxFloor = 5, currentFloor = 3, direction = Idle, doors = Open,
      panelRequests = [], calls = [], busy = True, clock = 1000,
      timers = [Timer 2000 CloseDoorsK []], microtasks = [], outcomes = []\<rparr>"

text \<open>
  \<open>new Lift(1, 5, 3)\<close>, then \<open>pressButton(3)\<close>, \<open>pressButton(5)\<close>, \<open>pressButton(1)\<close> while the
  doors open, then \<open>closeDoors()\<close>: the state in which line 91 evaluates the direction.
\<close>

definition tie_5_1 :: World where
  "tie_5_1 =
     \<lparr>minFloor = 1, maxFloor = 5, currentFloor = 3, direction = Idle, doors = Closed,
      panelRequests = [5, 1], calls = [], busy = True, clock = 2000, timers = [],
      microtasks = [], outcomes = []\<rparr>"

text \<open>
  The same with \<open>new Lift(-2 ^ 53, 2 ^ 53 + 2, 1)\<close> and the buttons of the floors \<open>1\<close>,
  \<open>2 ^ 53 + 2\<close> and \<open>-(2 ^ 53 - 1)\<close>, all of them doubles. The exact distances from floor 1
  are \<open>2 ^ 53 + 1\<close> and \<open>2 ^ 53\<close>; as doubles both are \<open>2 ^ 53\<close>.
\<close>

definition big_tie :: World where
  "big_tie =
     \<lparr>minFloor = - (2 ^ 53), maxFloor = 2 ^ 53 + 2, currentFloor = 1, direction = Idle,
      doors = Closed, panelRequests = [2 ^ 53 + 2, - (2 ^ 53 - 1)], calls = [],
      busy = True, clock = 2000, timers = [], microtasks = [], outcomes = []\<rparr>"

text \<open>
  \<open>new Lift(1, 10, 1)\<close>, \<open>pressButton(1)\<close>, the doors open, \<open>pressButton(1)\<close> again, then
  \<open>closeDoors()\<close>: the car is parked with closed doors on a floor that is requested.
\<close>

definition parked_on_request :: World where
  "parked_on_request =
     \<lparr>minFloor = 1, maxFloor = 10, currentFloor = 1, direction = Idle, doors = Closed,
      panelRequests = [1], calls = [], busy = False, clock = 2000, timers = [],
      microtasks = [], outcomes = []\<rparr>"

text \<open>
  \<open>new Lift(1, 5, 4)\<close>, \<open>pressButton(5)\<close>, \<open>pressButton(2)\<close>, an awaited \<open>stepUntilStop()\<close>
  and \<open>closeDoors()\<close>: the car is at the top floor, still going up, with floor 2 requested.
\<close>

definition at_top :: World where
  "at_top =
     \<lparr>minFloor = 1, maxFloor = 5, currentFloor = 5, direction = Up, doors = Closed,
      panelRequests = [2], calls = [], busy = False, clock = 5000, timers = [],
      microtasks = [], outcomes = []\<rparr>"

text \<open>
  The same with \<open>new Lift(1, 2 ^ 53, 2 ^ 53 - 1)\<close>, \<open>pressButton(2 ^ 53)\<close> and
  \<open>pressButton(1)\<close>: the top floor is \<open>2 ^ 53\<close>, and \<open>2 ^ 53 + 1\<close> is no double.
\<close>

definition big_top :: World where
  "big_top =
     \<lparr>minFloor = 1, maxFloor = 2 ^ 53, currentFloor = 2 ^ 53, direction = Up,
      doors = Closed, panelRequests = [1], calls = [], busy = False, clock = 5000,
      timers = [], microtasks = [], outcomes = []\<rparr>"

text \<open>
  A car going down from floor 5 while its move to floor 4 sleeps: with an up call and a
  down call on floor 4, and with the up call alone.
\<close>

definition passing_both :: World where
  "passing_both =
     \<lparr>minFloor = 1, maxFloor = 5, currentFloor = 5, direction = Down, doors = Closed,
      panelRequests = [1],
      calls = [\<lparr>c_floor = 4, c_direction = Up\<rparr>, \<lparr>c_floor = 4, c_direction = Down\<rparr>],
      busy = True, clock = 0, timers = [], microtasks = [], outcomes = []\<rparr>"


section \<open>The example states are states of runs\<close>

lemma lift_1_5_3_constructed: "new_Lift 1 5 3 = Inr lift_1_5_3"
  by (simp add: new_Lift_def lift_1_5_3_def)

lemma called_1_down_reached: "callFrom 1 Down lift_1_5_3 = (Returned, called_1_down)"
  by code_simp

lemma arrived_1_reached: "run 3 (snd (stepUntilStop_default [] called_1_down)) = Some arrived_1"
  by code_simp

lemma door_opening_reached: "pressButton 3 lift_1_5_3 = (Returned, door_opening)"
  by code_simp

lemma door_closing_reached: "closeDoors [] (fire door_opening) = (Pending, door_closing)"
  by code_simp

lemma tie_5_1_reached:
  "fire (snd (closeDoors [] (fire (snd (pressButton 1 (snd (pressButton 5 door_opening)))))))
     = (updateDirectionIfIdle tie_5_1)\<lparr>busy := False\<rparr>"
  by code_simp

lemma big_tie_reached:
  "(case new_Lift (- (2 ^ 53)) (2 ^ 53 + 2) 1 of
      Inl e \<Rightarrow> None
    | Inr w \<Rightarrow>
        Some (fire (snd (closeDoors [] (fire (snd (pressButton (- (2 ^ 53 - 1))
          (snd (pressButton (2 ^ 53 + 2) (snd (pressButton 1 w)))))))))))
     = Some ((updateDirectionIfIdle big_tie)\<lparr>busy := False\<rparr>)"
  by code_simp

lemma parked_on_request_reached:
  "(case new_Lift 1 10 1 of
      Inl e \<Rightarrow> None
    | Inr w \<Rightarrow>
        Some (fire (snd (closeDoors [] (snd (pressButton 1 (fire (snd (pressButton 1 w)))))))))
     = Some parked_on_request"
  by code_simp

lemma at_top_reached:
  "(case new_Lift 1 5 4 of
      Inl e \<Rightarrow> None
    | Inr w \<Rightarrow>
        Option.bind
          (run 2 (snd (stepUntilStop_default [] (snd (pressButton 2 (snd (pressButton 5 w)))))))
          (\<lambda>v. run 1 (snd (closeDoors [] v))))
     = Some at_top"
  by code_simp

lemma big_top_reached:
  "(case new_Lift 1 (2 ^ 53) (2 ^ 53 - 1) of
      Inl e \<Rightarrow> None
    | Inr w \<Rightarrow>
        Option.bind
          (run 2 (snd (stepUntilStop_default []
             (snd (pressButton 1 (snd (pressButton (2 ^ 53) w)))))))
          (\<lambda>v. run 1 (snd (closeDoors [] v))))
     = Some big_top"
  by code_simp

section \<open>The floor stays within its bounds\<close>

lemma in_range_openDoors: "in_range w \<Longrightarrow> in_range (snd (openDoors ks w))"
  by (simp add: openDoors_def sleep_def in_range_def)

lemma in_range_closeDoors: "in_range w \<Longrightarrow> in_range (snd (closeDoors ks w))"
  by (simp add: closeDoors_def sleep_def in_range_def)

lemma in_range_direction: "in_range (w\<lparr>direction := d\<rparr>) = in_range w"
  by (simp add: in_range_def)

lemma in_range_busy: "in_range (w\<lparr>busy := b\<rparr>) = in_range w"
  by (simp add: in_range_def)

lemma in_range_microtasks: "in_range (w\<lparr>microtasks := ms\<rparr>) = in_range w"
  by (simp add: in_range_def)

lemma in_range_settle: "in_range (settle ks st w) = in_range w"
  by (simp add: settle_def in_range_def)

lemma in_range_updateDirectionIfIdle: "in_range w \<Longrightarrow> in_range (updateDirectionIfIdle w)"
  by (simp add: updateDirectionIfIdle_def Let_def in_range_openDoors in_range_direction
      split: list.splits)

lemma in_range_pressButton: "in_range w \<Longrightarrow> in_range (snd (pressButton f w))"
proof -
  assume "in_range w"
  then have "in_range (w\<lparr>panelRequests := set_add f (panelRequests w)\<rparr>)"
    by (simp add: in_range_def)
  then show ?thesis
    using \<open>in_range w\<close>
    by (simp add: pressButton_def in_range_updateDirectionIfIdle split: option.splits)
qed

lemma in_range_callFrom: "in_range w \<Longrightarrow> in_range (snd (callFrom f d w))"
proof -
  assume "in_range w"
  then have "in_range (w\<lparr>calls := calls w @ [\<lparr>c_floor = f, c_direction = d\<rparr>]\<rparr>)"
    by (simp add: in_range_def)
  then show ?thesis
    using \<open>in_range w\<close>
    by (simp add: callFrom_def in_range_updateDirectionIfIdle split: option.splits)
qed

lemma in_range_sleep_move:
  "in_range w \<Longrightarrow> minFloor w \<le> n \<Longrightarrow> n \<le> maxFloor w \<Longrightarrow>
     in_range (sleep ms (MoveOneFloorK n) ks (w\<lparr>busy := True\<rparr>))"
  by (simp add: in_range_def sleep_def)

lemma in_range_moveOneFloor: "in_range w \<Longrightarrow> in_range (snd (moveOneFloor ks w))"
proof -
  assume w: "in_range w"
  define w1 where "w1 = (if direction w = Idle then updateDirectionIfIdle w else w)"
  have w1: "in_range w1" using w by (simp add: w1_def in_range_updateDirectionIfIdle)
  have "moveOneFloor ks w =
     (if doors w = Open then (Threw DoorsOpenError, w)
      else if busy w then (Threw BusyError, w)
      else
        if direction w = Idle \<and> direction w1 = Idle then (Threw NoDestinationError, w1)
        else
          (case double_add (currentFloor w1) (dir_value (direction w1)) of
             Finite n \<Rightarrow>
               if n < minFloor w1 \<or> n > maxFloor w1
               then (Returned, w1\<lparr>direction := (if direction w1 = Up then Down else Up)\<rparr>)
               else (Pending, sleep 3000 (MoveOneFloorK n) ks (w1\<lparr>busy := True\<rparr>))
           | Infinity \<Rightarrow>
               (Returned, w1\<lparr>direction := (if direction w1 = Up then Down else Up)\<rparr>)
           | MinusInfinity \<Rightarrow>
               (Returned, w1\<lparr>direction := (if direction w1 = Up then Down else Up)\<rparr>)))"
    unfolding moveOneFloor_def w1_def Let_def by (rule refl)
  then show ?thesis using w w1
    by (simp add: in_range_direction in_range_sleep_move split: number.splits)
qed

lemma in_range_stepLoop: "in_range w \<Longrightarrow> in_range (snd (stepLoop i n ks w))"
proof -
  assume w: "in_range w"
  obtain st w' where m: "moveOneFloor (StepUntilStopA i n # ks) w = (st, w')"
    by (cases "moveOneFloor (StepUntilStopA i n # ks) w")
  with in_range_moveOneFloor[OF w, of "StepUntilStopA i n # ks"] have "in_range w'"
    by simp
  with w m show ?thesis
    by (cases st) (simp_all add: stepLoop_def in_range_settle)
qed

lemma in_range_run_microtask: "in_range w \<Longrightarrow> in_range (run_microtask m w)"
proof (cases m)
  case (Microtask ks st)
  assume w: "in_range w"
  show ?thesis
  proof (cases ks)
    case Nil
    with Microtask w show ?thesis by simp
  next
    case (Cons k ks')
    show ?thesis
    proof (cases k)
      case MoveOneFloorA
      with Microtask Cons w show ?thesis by (simp add: in_range_settle)
    next
      case (Outside c)
      with Microtask Cons w show ?thesis by (simp add: in_range_def)
    next
      case (StepUntilStopA i n)
      obtain st' w' where s: "stepLoop (Suc i) n ks' w = (st', w')"
        by (cases "stepLoop (Suc i) n ks' w")
      with in_range_stepLoop[OF w, of "Suc i" n ks'] have "in_range w'"
        by simp
      with Microtask Cons StepUntilStopA s w show ?thesis
        by (cases st; cases st') (simp_all add: in_range_settle)
    qed
  qed
qed

lemma in_range_openDoors_resume: "in_range w \<Longrightarrow> in_range (openDoors_resume w)"
  by (simp add: openDoors_resume_def fulfillAtCurrentFloor_def Let_def in_range_def)

lemma in_range_closeDoors_resume: "in_range w \<Longrightarrow> in_range (closeDoors_resume w)"
proof -
  assume "in_range w"
  then have "in_range (w\<lparr>doors := Closed\<rparr>)" by (simp add: in_range_def)
  then show ?thesis
    by (simp add: closeDoors_resume_def Let_def in_range_busy in_range_updateDirectionIfIdle)
qed

lemma in_range_moveOneFloor_resume:
  assumes "in_range w" "minFloor w \<le> n" "n \<le> maxFloor w"
  shows "in_range (snd (moveOneFloor_resume n ks w))"
proof -
  let ?w2 = "w\<lparr>currentFloor := n, busy := False\<rparr>"
  have w2: "in_range ?w2"
    using assms by (simp add: in_range_def)
  obtain st w3 where o: "openDoors (MoveOneFloorA # ks) ?w2 = (st, w3)"
    by (cases "openDoors (MoveOneFloorA # ks) ?w2")
  with in_range_openDoors[OF w2, of "MoveOneFloorA # ks"] have "in_range w3"
    by simp
  with w2 o show ?thesis
    by (cases st) (simp_all add: moveOneFloor_resume_def Let_def in_range_settle)
qed

lemma in_range_resume:
  "in_range w \<Longrightarrow> frame_in_range (minFloor w) (maxFloor w) k \<Longrightarrow> in_range (resume k ks w)"
proof (cases k)
  case OpenDoorsK
  assume "in_range w"
  with OpenDoorsK show ?thesis by (simp add: in_range_settle in_range_openDoors_resume)
next
  case CloseDoorsK
  assume "in_range w"
  with CloseDoorsK show ?thesis by (simp add: in_range_settle in_range_closeDoors_resume)
next
  case (MoveOneFloorK n)
  assume "in_range w" "frame_in_range (minFloor w) (maxFloor w) k"
  with MoveOneFloorK in_range_moveOneFloor_resume[of w n ks]
  show ?thesis by (auto simp add: in_range_settle split: prod.splits status.splits)
qed

lemma in_range_run_timer:
  assumes "in_range w" "t \<in> set (timers w)"
  shows "in_range (run_timer t w)"
proof -
  let ?w = "w\<lparr>clock := max (clock w) (due t), timers := remove1 t (timers w)\<rparr>"
  have "list_all (\<lambda>t. frame_in_range (minFloor w) (maxFloor w) (body t))
      (remove1 t (timers w))"
    using assms(1) by (auto simp add: in_range_def list_all_iff dest: notin_set_remove1)
  then have "in_range ?w" using assms(1) by (simp add: in_range_def)
  moreover have "frame_in_range (minFloor ?w) (maxFloor ?w) (body t)"
    using assms by (simp add: in_range_def list_all_iff)
  ultimately show ?thesis unfolding run_timer_def by (rule in_range_resume)
qed

lemma reachable_in_range: "reachable w \<Longrightarrow> in_range w"
proof (induction rule: reachable.induct)
  case (constructed minF maxF startF w)
  then show ?case by (auto simp add: new_Lift_def in_range_def split: if_splits)
next
  case (waited w ms)
  then show ?case by (simp add: in_range_def)
next
  case (ran w m)
  then show ?case by (simp add: in_range_run_microtask in_range_microtasks)
qed (simp_all add: in_range_pressButton in_range_callFrom in_range_openDoors
      in_range_closeDoors in_range_moveOneFloor in_range_stepLoop stepUntilStop_def
      in_range_run_timer)

lemma earliest_in_set: "earliest t ts \<in> set (t # ts)"
  by (induction ts arbitrary: t) auto

lemma reachable_fire: "reachable w \<Longrightarrow> reachable (fire w)"
proof (cases "timers w")
  case Nil
  assume "reachable w"
  with Nil show ?thesis by (simp add: fire_def)
next
  case (Cons t ts)
  assume "reachable w"
  moreover have "earliest t ts \<in> set (timers w)"
    using Cons earliest_in_set[of t ts] by simp
  ultimately have "reachable (run_timer (earliest t ts) w)" by (rule fired)
  with Cons show ?thesis by (simp add: fire_def)
qed

lemma reachable_drain: "reachable w \<Longrightarrow> reachable (drain w)"
proof (induction w rule: drain.induct)
  case (1 w)
  show ?case
  proof (cases "microtasks w")
    case Nil
    with "1.prems" show ?thesis by (simp add: drain.simps[of w])
  next
    case (Cons m ms)
    then have "m \<in> set (microtasks w)" by simp
    with "1.prems" have
      "reachable (run_microtask m (w\<lparr>microtasks := remove1 m (microtasks w)\<rparr>))"
      by (rule ran)
    with Cons have "reachable (run_microtask m (w\<lparr>microtasks := ms\<rparr>))" by simp
    with Cons have "reachable (drain (run_microtask m (w\<lparr>microtasks := ms\<rparr>)))"
      by (intro "1.IH") auto
    with Cons show ?thesis by (simp add: drain.simps[of w])
  qed
qed

lemma reachable_run: "reachable w \<Longrightarrow> run n w = Some w' \<Longrightarrow> reachable w'"
proof (induction n arbitrary: w)
  case 0
  then show ?case using reachable_drain[of w] by (simp split: if_splits)
next
  case (Suc n)
  show ?case
  proof (cases "timers (drain w) = []")
    case True
    with Suc.prems reachable_drain[of w] show ?thesis by simp
  next
    case False
    with Suc.prems have "run n (fire (drain w)) = Some w'" by simp
    moreover have "reachable (fire (drain w))"
      using Suc.prems(1) by (intro reachable_fire reachable_drain)
    ultimately show ?thesis by (intro Suc.IH)
  qed
qed

lemma reachable_arrived_1: "reachable arrived_1"
proof -
  have "reachable lift_1_5_3" using lift_1_5_3_constructed by (rule constructed)
  then have "reachable (snd (callFrom 1 Down lift_1_5_3))" by (simp add: called)
  then have "reachable called_1_down" by (simp add: called_1_down_reached)
  then have "reachable (snd (stepUntilStop 1000 [] called_1_down))"
    by (rule stepped) simp
  then have "reachable (snd (stepUntilStop_default [] called_1_down))"
    by (simp add: stepUntilStop_default_def)
  then show ?thesis using arrived_1_reached by (rule reachable_run)
qed

text \<open>
  Claim C1 (range invariant). In every state that is reachable from a validly constructed
  lift by the public operations \<open>pressButton\<close>, \<open>callFrom\<close>, \<open>openDoors\<close>, \<open>closeDoors\<close>,
  \<open>moveOneFloor\<close> and \<open>stepUntilStop\<close>, with their continuations running and their timers
  firing in between, the current floor is between \<open>minFloor\<close> and \<open>maxFloor\<close>.
\<close>

theorem range_invariant:
  "reachable w \<Longrightarrow> minFloor w \<le> currentFloor w \<and> currentFloor w \<le> maxFloor w"
  using reachable_in_range[of w] by (simp add: in_range_def)

theorem range_invariant_witness:
  "reachable arrived_1 \<and> minFloor arrived_1 \<le> currentFloor arrived_1 \<and>
   currentFloor arrived_1 \<le> maxFloor arrived_1"
  using reachable_arrived_1 range_invariant[OF reachable_arrived_1] by simp

section \<open>Doors\<close>

lemma openDoors_resume_fields:
  "currentFloor (openDoors_resume v) = currentFloor v"
  "doors (openDoors_resume v) = Open"
  "busy (openDoors_resume v) = False"
  "panelRequests (openDoors_resume v) = removeAll (currentFloor v) (panelRequests v)"
  "calls (openDoors_resume v) = filter (\<lambda>c. c_floor c \<noteq> currentFloor v) (calls v)"
  by (simp_all add: openDoors_resume_def fulfillAtCurrentFloor_def set_delete_def Let_def)

lemma openDoors_resume_idle:
  "panelRequests (openDoors_resume v) = [] \<Longrightarrow> calls (openDoors_resume v) = [] \<Longrightarrow>
     direction (openDoors_resume v) = Idle"
  by (auto simp add: openDoors_resume_def fulfillAtCurrentFloor_def set_delete_def Let_def
      hasPendingRequests_def split: if_splits)

text \<open>
  Claim C2 (fulfillment completeness). When \<open>openDoors\<close> is called with the doors closed
  and the lift not busy, it suspends on its timer. When the timer fires, in whatever state
  \<open>v\<close> the lift then is, the rest of \<open>openDoors\<close> opens the doors and leaves the current
  floor in no pending panel request and in no pending call, keeps the panel requests and
  the calls of the other floors as they are, in their order, and sets the direction to
  \<open>Idle\<close> if no panel request and no call is left. With no other timer pending, the next event of the loop is
  this one, one second later.
\<close>

theorem fulfillment_completeness:
  assumes "doors w = Closed" and "\<not> busy w"
  shows "openDoors ks w = (Pending, sleep 1000 OpenDoorsK ks (w\<lparr>busy := True\<rparr>)) \<and>
    resume OpenDoorsK ks v = settle ks Returned (openDoors_resume v) \<and>
    doors (openDoors_resume v) = Open \<and>
    currentFloor (openDoors_resume v) = currentFloor v \<and>
    currentFloor v \<notin> set (pendingPanelRequests (openDoors_resume v)) \<and>
    (\<forall>c \<in> set (pendingCalls (openDoors_resume v)). c_floor c \<noteq> currentFloor v) \<and>
    panelRequests (openDoors_resume v) = removeAll (currentFloor v) (panelRequests v) \<and>
    calls (openDoors_resume v) = filter (\<lambda>c. c_floor c \<noteq> currentFloor v) (calls v) \<and>
    (panelRequests (openDoors_resume v) = [] \<and> calls (openDoors_resume v) = []
       \<longrightarrow> direction (openDoors_resume v) = Idle) \<and>
    (timers w = [] \<longrightarrow>
       fire (snd (openDoors [] w)) = (openDoors_resume w)\<lparr>clock := clock w + 1000\<rparr>)"
proof -
  have a: "openDoors ks w = (Pending, sleep 1000 OpenDoorsK ks (w\<lparr>busy := True\<rparr>))" for ks
    using assms by (simp add: openDoors_def)
  have b: "timers w = [] \<Longrightarrow>
      fire (snd (openDoors [] w)) = (openDoors_resume w)\<lparr>clock := clock w + 1000\<rparr>"
    using assms
    by (simp add: a sleep_def fire_def run_timer_def openDoors_resume_def settle_def
        fulfillAtCurrentFloor_def Let_def hasPendingRequests_def)
  show ?thesis using a b openDoors_resume_idle[of v]
    by (simp add: openDoors_resume_fields pendingPanelRequests_def pendingCalls_def)
qed

theorem fulfillment_completeness_witness:
  "doors parked_on_request = Closed \<and> \<not> busy parked_on_request \<and>
   timers parked_on_request = [] \<and>
   fst (openDoors [] parked_on_request) = Pending \<and>
   panelRequests passing_both = [1] \<and> currentFloor passing_both = 5 \<and>
   panelRequests (openDoors_resume passing_both) = [1] \<and>
   calls (openDoors_resume passing_both) = calls passing_both \<and>
   panelRequests (fire (snd (openDoors [] parked_on_request))) = [] \<and>
   calls (fire (snd (openDoors [] parked_on_request))) = [] \<and>
   doors (fire (snd (openDoors [] parked_on_request))) = Open \<and>
   direction (fire (snd (openDoors [] parked_on_request))) = Idle"
proof -
  have h: "doors parked_on_request = Closed" "\<not> busy parked_on_request"
    "timers parked_on_request = []"
    by (simp_all add: parked_on_request_def)
  have p: "panelRequests parked_on_request = [1]" "calls parked_on_request = []"
    "currentFloor parked_on_request = 1"
    "panelRequests passing_both = [1]" "currentFloor passing_both = 5"
    "filter (\<lambda>c. c_floor c \<noteq> 5) (calls passing_both) = calls passing_both"
    by (simp_all add: parked_on_request_def passing_both_def)
  show ?thesis
    using h p fulfillment_completeness[OF h(1,2), of "[]" passing_both]
      fulfillment_completeness[OF h(1,2), of "[]" parked_on_request]
    by simp
qed

text \<open>
  Claim C10 (the no-op comes before the busy check). \<open>openDoors\<close> with the doors open and
  \<open>closeDoors\<close> with the doors closed return without an error and leave the whole state
  as it is, whatever \<open>busy\<close> is.
\<close>

theorem noop_precedence:
  "(doors w = Open \<longrightarrow> openDoors ks w = (Returned, w)) \<and>
   (doors v = Closed \<longrightarrow> closeDoors ks' v = (Returned, v))"
  by (simp add: openDoors_def closeDoors_def)

theorem noop_precedence_witness:
  "busy door_closing \<and> doors door_closing = Open \<and>
   openDoors [] door_closing = (Returned, door_closing) \<and>
   busy door_opening \<and> doors door_opening = Closed \<and>
   closeDoors [] door_opening = (Returned, door_opening)"
  using noop_precedence[of door_closing "[]" door_opening "[]"]
  by (simp add: door_closing_def door_opening_def)

text \<open>
  Claim C6 (mutual exclusion), as the code has it. While \<open>busy\<close> is true, each of the three
  timed operations leaves the whole state as it is; \<open>openDoors\<close> fails with \<open>BusyError\<close>
  unless the doors are open already, when it returns; \<open>closeDoors\<close> fails with \<open>BusyError\<close>
  unless the doors are closed already, when it returns; \<open>moveOneFloor\<close> fails with
  \<open>BusyError\<close> unless the doors are open, when it fails with \<open>DoorsOpenError\<close>.
\<close>

theorem mutual_exclusion_amended:
  assumes "busy w"
  shows "openDoors ks w = (if doors w = Open then (Returned, w) else (Threw BusyError, w)) \<and>
    closeDoors ks w = (if doors w = Closed then (Returned, w) else (Threw BusyError, w)) \<and>
    moveOneFloor ks w =
      (if doors w = Open then (Threw DoorsOpenError, w) else (Threw BusyError, w))"
  using assms by (simp add: openDoors_def closeDoors_def moveOneFloor_def)

theorem mutual_exclusion_amended_witness:
  "busy door_opening \<and>
   openDoors [] door_opening = (Threw BusyError, door_opening) \<and>
   moveOneFloor [] door_opening = (Threw BusyError, door_opening) \<and>
   busy door_closing \<and>
   closeDoors [] door_closing = (Threw BusyError, door_closing)"
proof -
  have h: "busy door_opening" "busy door_closing"
    by (simp_all add: door_opening_def door_closing_def)
  have d: "doors door_opening = Closed" "doors door_closing = Open"
    by (simp_all add: door_opening_def door_closing_def)
  show ?thesis
    using h d mutual_exclusion_amended[OF h(1), of "[]"]
      mutual_exclusion_amended[OF h(2), of "[]"]
    by simp
qed

text \<open>
  Claim C6 as the specification states it fails: while the doors are closing the lift is
  busy, and \<open>openDoors\<close> returns without an error and \<open>moveOneFloor\<close> fails with
  \<open>DoorsOpenError\<close>; while the doors are opening, \<open>closeDoors\<close> returns without an error.
\<close>

theorem mutual_exclusion_counterexample:
  "busy door_closing \<and>
   openDoors [] door_closing = (Returned, door_closing) \<and>
   moveOneFloor [] door_closing = (Threw DoorsOpenError, door_closing) \<and>
   busy door_opening \<and>
   closeDoors [] door_opening = (Returned, door_opening)"
  by (simp add: door_closing_def door_opening_def openDoors_def closeDoors_def
      moveOneFloor_def)

section \<open>Moving\<close>

text \<open>
  Claim C8 (no move with open doors). With the doors open \<open>moveOneFloor\<close> fails with
  \<open>DoorsOpenError\<close> and leaves the state as it is, whatever \<open>busy\<close>, the direction and the
  pending requests are: the check of the doors is the first one.
\<close>

theorem no_move_with_open_doors:
  "doors w = Open \<Longrightarrow> moveOneFloor ks w = (Threw DoorsOpenError, w)"
  by (simp add: moveOneFloor_def)

theorem no_move_with_open_doors_witness:
  "doors door_closing = Open \<and> busy door_closing \<and> direction door_closing = Idle \<and>
   moveOneFloor [] door_closing = (Threw DoorsOpenError, door_closing)"
proof -
  have h: "doors door_closing = Open" by (simp add: door_closing_def)
  show ?thesis
    using h no_move_with_open_doors[OF h, of "[]"] by (simp add: door_closing_def)
qed








section \<open>Direction selection\<close>











section \<open>Errors\<close>







section \<open>The scenario of the specification\<close>

text \<open>
  Claim C9 (end-to-end scenario). \<open>new Lift(1, 5, 3)\<close> gives a lift on which
  \<open>callFrom(1, Direction.Down)\<close> returns with the direction \<open>Down\<close>. \<open>stepUntilStop()\<close> with
  its default bound then suspends, and after three timers (two moves and the door
  opening, 7000 ms) no timer is left, the loop of \<open>stepUntilStop\<close> has ended at its
  \<open>break\<close>, the car is on floor 1, the doors are open and no call is pending.
\<close>

theorem scenario_call_from_1_down:
  "new_Lift 1 5 3 = Inr lift_1_5_3 \<and>
   callFrom 1 Down lift_1_5_3 = (Returned, called_1_down) \<and>
   direction called_1_down = Down \<and>
   fst (stepUntilStop_default [] called_1_down) = Pending \<and>
   run 3 (snd (stepUntilStop_default [] called_1_down)) = Some arrived_1 \<and>
   stepLoop 2 1000 [] arrived_1 = (Returned, arrived_1) \<and>
   timers arrived_1 = [] \<and> clock arrived_1 = 7000 \<and>
   currentFloor arrived_1 = 1 \<and> doors arrived_1 = Open \<and> pendingCalls arrived_1 = []"
  by code_simp

theorem scenario_call_from_1_down_witness:
  "(\<exists>w. new_Lift 1 5 3 = Inr w \<and> direction (snd (callFrom 1 Down w)) = Down \<and>
      (\<exists>v. run 3 (snd (stepUntilStop_default [] (snd (callFrom 1 Down w)))) = Some v \<and>
         currentFloor v = 1 \<and> doors v = Open \<and> pendingCalls v = []))"
  using scenario_call_from_1_down by simp

end
